theory Spec2Isabelle
  imports Main "HOL-Library.Word" "HOL-Library.Sublist"
begin

section \<open>JavaScript strings\<close>

text \<open>
  A JavaScript string is a sequence of UTF-16 code units. \<open>String.prototype.trim\<close>,
  \<open>slice\<close>, \<open>length\<close> and a regular expression without the \<open>u\<close> flag all
  work on code units, so a string is modelled as a list of 16-bit words. \<open>str\<close> embeds
  an ASCII literal.
\<close>

type_synonym code_unit = "16 word"

type_synonym jsstring = "code_unit list"

definition str :: "string \<Rightarrow> jsstring" where
  "str s = map (\<lambda>c. of_nat (of_char c)) s"

text \<open>
  The code units \<open>trim\<close> removes: ECMAScript's WhiteSpace (TAB, VT, FF, SP, NBSP,
  ZWNBSP and the other space separators) and LineTerminator (LF, CR, LS, PS).
\<close>

definition is_white_space :: "code_unit \<Rightarrow> bool" where
  "is_white_space c =
     (c = 0x0009 \<or> c = 0x000A \<or> c = 0x000B \<or> c = 0x000C \<or> c = 0x000D \<or> c = 0x0020 \<or>
      c = 0x00A0 \<or> c = 0x1680 \<or> (0x2000 \<le> c \<and> c \<le> 0x200A) \<or> c = 0x2028 \<or>
      c = 0x2029 \<or> c = 0x202F \<or> c = 0x205F \<or> c = 0x3000 \<or> c = 0xFEFF)"

definition trim :: "jsstring \<Rightarrow> jsstring" where
  "trim s = rev (dropWhile is_white_space (rev (dropWhile is_white_space s)))"

text \<open>\<open>s.slice(a, b)\<close> and \<open>s.slice(a)\<close> for indices that are natural numbers.\<close>

definition slice :: "jsstring \<Rightarrow> nat \<Rightarrow> nat \<Rightarrow> jsstring" where
  "slice s a b = take (b - a) (drop a s)"

definition slice_from :: "jsstring \<Rightarrow> nat \<Rightarrow> jsstring" where
  "slice_from s a = drop a s"

section \<open>The files store\<close>

text \<open>
  The store of saved documents: two signals (\<open>files\<close>, \<open>currentFileId\<close>) and the two
  keys of \<open>window.localStorage\<close> it writes. \<open>window\<close> is \<open>None\<close> where
  \<open>typeof window === 'undefined'\<close>. The JSON text under the files key is modelled by the
  list it serialises; a key that is not set is \<open>None\<close>.
\<close>

record SavedFile =
  file_id :: jsstring
  name :: jsstring
  content :: jsstring
  createdAt :: int
  updatedAt :: int

record local_storage =
  files_v1 :: "SavedFile list option"
  current_file_v1 :: "jsstring option"

record store =
  files :: "SavedFile list"
  currentFileId :: "jsstring option"
  window :: "local_storage option"

definition saveToStorage :: "SavedFile list \<Rightarrow> store \<Rightarrow> store" where
  "saveToStorage fs s =
     (case window s of
        None \<Rightarrow> s
      | Some ls \<Rightarrow> s\<lparr>window := Some (ls\<lparr>files_v1 := Some fs\<rparr>)\<rparr>)"

definition saveCurrentFileId :: "jsstring option \<Rightarrow> store \<Rightarrow> store" where
  "saveCurrentFileId i s =
     (case window s of
        None \<Rightarrow> s
      | Some ls \<Rightarrow>
          (if i \<noteq> None \<and> i \<noteq> Some []
           then s\<lparr>window := Some (ls\<lparr>current_file_v1 := i\<rparr>)\<rparr>
           else s\<lparr>window := Some (ls\<lparr>current_file_v1 := None\<rparr>)\<rparr>))"

definition setCurrentFileId :: "jsstring option \<Rightarrow> store \<Rightarrow> store" where
  "setCurrentFileId i s = saveCurrentFileId i (s\<lparr>currentFileId := i\<rparr>)"

text \<open>
  \<open>createFile(name, content = '')\<close>. \<open>Date.now()\<close> and \<open>generateId()\<close> read the clock and
  the random generator: their results are the arguments \<open>now\<close> and \<open>new_id\<close>. A call
  without the second argument is \<open>content = None\<close>.
\<close>

definition createFile ::
  "jsstring \<Rightarrow> jsstring option \<Rightarrow> int \<Rightarrow> jsstring \<Rightarrow> store \<Rightarrow> SavedFile \<times> store" where
  "createFile nm cont now new_id s =
     (let file = \<lparr>file_id = new_id,
                  name = (if nm \<noteq> [] then nm else str ''Untitled''),
                  content = (case cont of None \<Rightarrow> [] | Some c \<Rightarrow> c),
                  createdAt = now,
                  updatedAt = now\<rparr>;
          updated = files s @ [file]
      in (file, saveToStorage updated (s\<lparr>files := updated\<rparr>)))"

definition deleteFile :: "jsstring \<Rightarrow> store \<Rightarrow> store" where
  "deleteFile i s =
     (let updated = filter (\<lambda>f. file_id f \<noteq> i) (files s);
          s1 = saveToStorage updated (s\<lparr>files := updated\<rparr>)
      in if currentFileId s1 = Some i then setCurrentFileId None s1 else s1)"

section \<open>The markdown parser\<close>

text \<open>
  \<open>MarkdownPreview.tsx\<close> creates one \<open>MarkdownIt\<close> instance \<open>md\<close> for the whole module
  and overwrites five slots of \<open>md.renderer.rules\<close> during a pass. A slot holds either
  the value the module captured when it was loaded (\<open>originalFence\<close>,
  \<open>originalCodeBlock\<close>, \<open>originalImage\<close>, \<open>originalLinkOpen\<close>, \<open>originalLinkClose\<close>) or
  the closure a pass installs.
\<close>

datatype handler = Original | Override

record renderer_rules =
  fence_rule :: handler
  code_block_rule :: handler
  image_rule :: handler
  link_open_rule :: handler
  link_close_rule :: handler

definition original_rules :: renderer_rules where
  "original_rules = \<lparr>fence_rule = Original, code_block_rule = Original, image_rule = Original,
     link_open_rule = Original, link_close_rule = Original\<rparr>"

text \<open>
  The token stream of the parser is flat: a fenced block is a token of type \<open>fence\<close> with
  its \<open>info\<close> and \<open>content\<close> strings, an indented block a token of type \<open>code_block\<close>
  with its \<open>content\<close>. Every other token (paragraphs, inline content with its images and
  links, lists, ...) is \<open>Other f\<close>, where \<open>f\<close> gives the HTML the renderer emits for it
  under the rules in force (the image and link slots change that HTML).
\<close>

datatype token =
    Fence jsstring jsstring
  | Code_block jsstring
  | Other "renderer_rules \<Rightarrow> jsstring"

text \<open>
  The library itself is not part of the repository. What the code uses of it is a
  parameter: the parser (\<open>parse\<close>) and the two default code renderers.
\<close>

record markdown_it =
  parse :: "jsstring \<Rightarrow> token list"
  default_fence :: "jsstring \<Rightarrow> jsstring \<Rightarrow> jsstring"
  default_code_block :: "jsstring \<Rightarrow> jsstring"

section \<open>The segmenter: the parse pass\<close>

record CodeBlockData =
  cb_id :: jsstring
  code :: jsstring
  language :: jsstring

datatype Segment = Html jsstring | Code CodeBlockData

text \<open>The two variables a pass closes over, \<open>codeBlocks\<close> and \<open>blockIndex\<close>.\<close>

record pass_state =
  codeBlocks_var :: "CodeBlockData list"
  blockIndex :: nat

text \<open>The object \<open>{ html, codeBlocks }\<close> that \<open>processedContent\<close> returns.\<close>

record processed =
  html :: jsstring
  codeBlocks :: "CodeBlockData list"

text \<open>
  \<open>`code-block-${blockIndex++}`\<close> prints the counter in decimal. The counter is a natural
  number: a pass over a string cannot meet the \<open>2^53\<close> tokens at which a JavaScript number
  stops counting exactly.
\<close>

definition digit_unit :: "nat \<Rightarrow> code_unit" where
  "digit_unit d = of_nat (48 + d)"

fun number_to_string :: "nat \<Rightarrow> jsstring" where
  "number_to_string n =
     (if n < 10 then [digit_unit n]
      else number_to_string (n div 10) @ [digit_unit (n mod 10)])"

declare number_to_string.simps [simp del]

definition code_block_id :: "nat \<Rightarrow> jsstring" where
  "code_block_id k = str ''code-block-'' @ number_to_string k"

text \<open>The double quote, and the placeholder \<open><div data-code-block-id="${id}"></div>\<close>.\<close>

definition dquote :: code_unit where
  "dquote = 0x0022"

definition placeholder :: "jsstring \<Rightarrow> jsstring" where
  "placeholder i = str ''<div data-code-block-id='' @ [dquote] @ i @ [dquote] @ str ''></div>''"

text \<open>
  \<open>code.replace(/\n$/, '')\<close>: without the \<open>m\<close> flag \<open>$\<close> is the end of the string, so the
  one match possible is a line feed that is the last code unit.
\<close>

definition replace_trailing_newline :: "jsstring \<Rightarrow> jsstring" where
  "replace_trailing_newline s = (if s \<noteq> [] \<and> last s = 0x000A then butlast s else s)"

text \<open>
  The closures installed in \<open>md.renderer.rules.fence\<close> and \<open>md.renderer.rules.code_block\<close>.
  \<open>token.info || 'plaintext'\<close> is \<open>plaintext\<close> exactly for the empty string (the \<open>info\<close> of
  a token is always a string).
\<close>

definition fence_override :: "jsstring \<Rightarrow> jsstring \<Rightarrow> pass_state \<Rightarrow> jsstring \<times> pass_state" where
  "fence_override info cont p =
     (let language = (if info \<noteq> [] then info else str ''plaintext'');
          i = code_block_id (blockIndex p);
          p1 = p\<lparr>blockIndex := blockIndex p + 1\<rparr>;
          p2 = p1\<lparr>codeBlocks_var := codeBlocks_var p1 @
                 [\<lparr>cb_id = i, code = replace_trailing_newline cont, language = language\<rparr>]\<rparr>
      in (placeholder i, p2))"

definition code_block_override :: "jsstring \<Rightarrow> pass_state \<Rightarrow> jsstring \<times> pass_state" where
  "code_block_override cont p =
     (let i = code_block_id (blockIndex p);
          p1 = p\<lparr>blockIndex := blockIndex p + 1\<rparr>;
          p2 = p1\<lparr>codeBlocks_var := codeBlocks_var p1 @
                 [\<lparr>cb_id = i, code = replace_trailing_newline cont, language = str ''plaintext''\<rparr>]\<rparr>
      in (placeholder i, p2))"

text \<open>
  Modelled from the spec: the renderer of the parser collaborator, which is not under
  \<open>src/\<close>. It walks the token stream once, left to right; for a fenced or an indented
  code token it calls the handler registered in the slot (the closure of the pass, or the
  default renderer), for every other token it emits that token's HTML, and it
  concatenates what it gets.
\<close>

fun render_token ::
  "markdown_it \<Rightarrow> renderer_rules \<Rightarrow> token \<Rightarrow> pass_state \<Rightarrow> jsstring \<times> pass_state" where
  "render_token md r (Fence info cont) p =
     (case fence_rule r of
        Override \<Rightarrow> fence_override info cont p
      | Original \<Rightarrow> (default_fence md info cont, p))"
| "render_token md r (Code_block cont) p =
     (case code_block_rule r of
        Override \<Rightarrow> code_block_override cont p
      | Original \<Rightarrow> (default_code_block md cont, p))"
| "render_token md r (Other f) p = (f r, p)"

fun render_loop ::
  "markdown_it \<Rightarrow> renderer_rules \<Rightarrow> token list \<Rightarrow> jsstring \<Rightarrow> pass_state \<Rightarrow> jsstring \<times> pass_state" where
  "render_loop md r [] result p = (result, p)"
| "render_loop md r (t # ts) result p =
     (case render_token md r t p of (s, p') \<Rightarrow> render_loop md r ts (result @ s) p')"

definition render ::
  "markdown_it \<Rightarrow> renderer_rules \<Rightarrow> jsstring \<Rightarrow> pass_state \<Rightarrow> jsstring \<times> pass_state" where
  "render md r src p = render_loop md r (parse md src) [] p"

text \<open>
  \<open>processedContent\<close>. The renderer rules are shared state: the function takes them and
  returns them. On a source that \<open>trim\<close> empties it returns before it touches them. The
  image and link closures are installed and removed with the two code closures.
\<close>

definition processedContent ::
  "markdown_it \<Rightarrow> jsstring \<Rightarrow> renderer_rules \<Rightarrow> processed \<times> renderer_rules" where
  "processedContent md source rules =
     (if trim source = [] then (\<lparr>html = [], codeBlocks = []\<rparr>, rules)
      else
        (let p0 = \<lparr>codeBlocks_var = [], blockIndex = 0\<rparr>;
             rules1 = rules\<lparr>fence_rule := Override, code_block_rule := Override,
                        image_rule := Override, link_open_rule := Override,
                        link_close_rule := Override\<rparr>;
             (h, p1) = render md rules1 source p0;
             rules2 = rules1\<lparr>fence_rule := Original, code_block_rule := Original,
                        image_rule := Original, link_open_rule := Original,
                        link_close_rule := Original\<rparr>
         in (\<lparr>html = h, codeBlocks = codeBlocks_var p1\<rparr>, rules2)))"

section \<open>The segmenter: the placeholder scan\<close>

text \<open>
  The regular expression \<open>/<div data-code-block-id="([^"]+)"><\/div>/g\<close>. Anchored at one
  position it has at most one way to match: the literal opening, the longest run of code
  units other than the double quote (at least one; a shorter run would have to be followed
  by a double quote that is still in the run), and the literal closing. \<open>match_here\<close>
  returns the captured group and the length of the whole match.
\<close>

definition marker_open :: jsstring where
  "marker_open = str ''<div data-code-block-id='' @ [dquote]"

definition marker_close :: jsstring where
  "marker_close = dquote # str ''></div>''"

definition match_here :: "jsstring \<Rightarrow> (jsstring \<times> nat) option" where
  "match_here s =
     (if prefix marker_open s then
        (let rest = drop (length marker_open) s;
             cap = takeWhile (\<lambda>c. c \<noteq> dquote) rest;
             after = dropWhile (\<lambda>c. c \<noteq> dquote) rest
         in if cap \<noteq> [] \<and> prefix marker_close after
            then Some (cap, length marker_open + length cap + length marker_close)
            else None)
      else None)"

text \<open>
  \<open>regex.exec(html)\<close> with the \<open>g\<close> flag tries every position from the regex's
  \<open>lastIndex\<close> on and returns the leftmost match: its \<open>index\<close>, the group and the length
  of \<open>match[0]\<close>. The regex is created by the call of \<open>segments\<close>, so its \<open>lastIndex\<close>
  starts at \<open>0\<close>, and after a match it is \<open>index + match[0].length\<close>: the value the loop
  keeps in its own variable \<open>lastIndex\<close>, which is the argument here.
\<close>

fun search :: "nat \<Rightarrow> jsstring \<Rightarrow> (nat \<times> jsstring \<times> nat) option" where
  "search i s =
     (case match_here s of
        Some (cap, n) \<Rightarrow> Some (i, cap, n)
      | None \<Rightarrow> (case s of [] \<Rightarrow> None | c # cs \<Rightarrow> search (Suc i) cs))"

declare search.simps [simp del]

definition exec :: "jsstring \<Rightarrow> nat \<Rightarrow> (nat \<times> jsstring \<times> nat) option" where
  "exec h lastIndex = (if length h < lastIndex then None else search lastIndex (drop lastIndex h))"

text \<open>\<open>new Map(codeBlocks.map((cb) => [cb.id, cb]))\<close>: a later entry replaces an earlier
  one with the same key.\<close>

definition codeBlockMap :: "CodeBlockData list \<Rightarrow> (jsstring \<rightharpoonup> CodeBlockData)" where
  "codeBlockMap cbs = foldl (\<lambda>m cb. m(cb_id cb \<mapsto> cb)) Map.empty cbs"

text \<open>The two places that push an HTML segment: only when the slice is not blank.\<close>

definition push_html :: "jsstring \<Rightarrow> Segment list \<Rightarrow> Segment list" where
  "push_html htmlContent result =
     (if trim htmlContent \<noteq> [] then result @ [Html htmlContent] else result)"

text \<open>What a match looks like, and that the loop below moves forward at every match.\<close>

lemma match_here_iff:
  "match_here s = Some (cap, n) \<longleftrightarrow>
     cap \<noteq> [] \<and> dquote \<notin> set cap \<and>
     n = length marker_open + length cap + length marker_close \<and>
     (\<exists>tl. s = marker_open @ cap @ marker_close @ tl)"
proof
  assume m: "match_here s = Some (cap, n)"
  then have p: "prefix marker_open s"
    by (simp add: match_here_def split: if_splits)
  then obtain rest where s: "s = marker_open @ rest"
    by (auto simp: prefix_def)
  let ?P = "\<lambda>c. c \<noteq> dquote"
  from m s have cap: "cap = takeWhile ?P rest" and ne: "cap \<noteq> []"
    and pc: "prefix marker_close (dropWhile ?P rest)"
    and n: "n = length marker_open + length cap + length marker_close"
    by (auto simp: match_here_def Let_def split: if_splits)
  from pc obtain tl where tl: "dropWhile ?P rest = marker_close @ tl"
    by (auto simp: prefix_def)
  have "rest = takeWhile ?P rest @ dropWhile ?P rest" by simp
  with cap tl have "rest = cap @ marker_close @ tl" by simp
  moreover have "dquote \<notin> set cap"
    unfolding cap by (auto dest: set_takeWhileD)
  ultimately show "cap \<noteq> [] \<and> dquote \<notin> set cap \<and>
     n = length marker_open + length cap + length marker_close \<and>
     (\<exists>tl. s = marker_open @ cap @ marker_close @ tl)"
    using ne n s by auto
next
  assume a: "cap \<noteq> [] \<and> dquote \<notin> set cap \<and>
     n = length marker_open + length cap + length marker_close \<and>
     (\<exists>tl. s = marker_open @ cap @ marker_close @ tl)"
  then obtain tl where s: "s = marker_open @ cap @ marker_close @ tl" by auto
  let ?P = "\<lambda>c. c \<noteq> dquote"
  have all: "\<forall>c\<in>set cap. ?P c" using a by auto
  have mc: "marker_close @ tl = dquote # (str ''></div>'' @ tl)"
    by (simp add: marker_close_def)
  have t: "takeWhile ?P (cap @ marker_close @ tl) = cap"
    using all by (simp add: mc)
  have d: "dropWhile ?P (cap @ marker_close @ tl) = marker_close @ tl"
    using all by (simp add: mc)
  show "match_here s = Some (cap, n)"
    using a by (simp add: match_here_def s t d)
qed

lemma match_here_length:
  "match_here s = Some (cap, n) \<Longrightarrow> 0 < n \<and> n \<le> length s"
  by (auto simp: match_here_iff)

lemma search_bounds:
  "search i s = Some (idx, cap, n) \<Longrightarrow> i \<le> idx \<and> 0 < n \<and> idx + n \<le> i + length s"
proof (induction s arbitrary: i)
  case Nil
  then show ?case
    by (auto simp: search.simps [of _ "[]"] dest: match_here_length split: option.splits)
next
  case (Cons c cs)
  show ?case
  proof (cases "match_here (c # cs)")
    case None
    with Cons.prems have "search (Suc i) cs = Some (idx, cap, n)"
      by (simp add: search.simps [of _ "c # cs"])
    from Cons.IH [OF this] show ?thesis by simp
  next
    case (Some a)
    with Cons.prems have "match_here (c # cs) = Some (cap, n)" and "idx = i"
      by (auto simp: search.simps [of _ "c # cs"] split: prod.splits)
    then show ?thesis
      using match_here_length [of "c # cs" cap n] by simp
  qed
qed

lemma exec_bounds:
  "exec h i = Some (idx, cap, n) \<Longrightarrow> i \<le> idx \<and> 0 < n \<and> idx + n \<le> length h"
  by (auto simp: exec_def split: if_splits dest!: search_bounds)

text \<open>The \<open>while (match !== null)\<close> loop of \<open>segments\<close> and the code after it.\<close>

function segments_loop ::
  "jsstring \<Rightarrow> (jsstring \<rightharpoonup> CodeBlockData) \<Rightarrow> nat \<Rightarrow> Segment list \<Rightarrow> Segment list" where
  "segments_loop h m lastIndex result =
     (case exec h lastIndex of
        None \<Rightarrow>
          (if lastIndex < length h then push_html (slice_from h lastIndex) result else result)
      | Some (idx, cap, n) \<Rightarrow>
          (let result1 = (if lastIndex < idx then push_html (slice h lastIndex idx) result
                          else result);
               result2 = (case m cap of Some codeBlock \<Rightarrow> result1 @ [Code codeBlock]
                          | None \<Rightarrow> result1)
           in segments_loop h m (idx + n) result2))"
  by pat_completeness auto
termination
  apply (relation "measure (\<lambda>(h, m, lastIndex, result). length h - lastIndex)")
   apply simp
  apply (auto dest!: exec_bounds)
  done

declare segments_loop.simps [simp del]

definition segments_of :: "processed \<Rightarrow> Segment list" where
  "segments_of pc =
     (if html pc = [] then []
      else segments_loop (html pc) (codeBlockMap (codeBlocks pc)) 0 [])"

definition segments :: "markdown_it \<Rightarrow> jsstring \<Rightarrow> renderer_rules \<Rightarrow> Segment list" where
  "segments md source rules = segments_of (fst (processedContent md source rules))"

section \<open>What the claims speak of\<close>

text \<open>
  The notions below are not functions of the program. They say, of a token stream, what
  the specification says a pass produces; the theorems compare the program with them.
\<close>

definition intercepting_rules :: renderer_rules where
  "intercepting_rules = \<lparr>fence_rule = Override, code_block_rule = Override,
     image_rule = Override, link_open_rule = Override, link_close_rule = Override\<rparr>"

text \<open>The code blocks of a token stream, their raw content, and the language tag the
  specification gives them: the info string of a fence when it is not empty, and
  \<open>plaintext\<close> for a fence without one and for every indented block.\<close>

fun is_code_token :: "token \<Rightarrow> bool" where
  "is_code_token (Fence info cont) = True"
| "is_code_token (Code_block cont) = True"
| "is_code_token (Other f) = False"

definition code_tokens :: "token list \<Rightarrow> token list" where
  "code_tokens ts = filter is_code_token ts"

fun token_content :: "token \<Rightarrow> jsstring" where
  "token_content (Fence info cont) = cont"
| "token_content (Code_block cont) = cont"
| "token_content (Other f) = []"

fun spec_language :: "token \<Rightarrow> jsstring" where
  "spec_language (Fence info cont) = (if info = [] then str ''plaintext'' else info)"
| "spec_language (Code_block cont) = str ''plaintext''"
| "spec_language (Other f) = []"

fun other_html :: "renderer_rules \<Rightarrow> token \<Rightarrow> jsstring" where
  "other_html R (Other f) = f R"
| "other_html R t = []"

text \<open>The descriptor of the code block that is number \<open>k\<close> of the document, and the
  descriptors of a token stream whose first code block is number \<open>k\<close>.\<close>

definition spec_descriptor :: "nat \<Rightarrow> token \<Rightarrow> CodeBlockData" where
  "spec_descriptor k t = \<lparr>cb_id = code_block_id k, code = replace_trailing_newline (token_content t),
     language = spec_language t\<rparr>"

fun spec_descriptors :: "nat \<Rightarrow> token list \<Rightarrow> CodeBlockData list" where
  "spec_descriptors k [] = []"
| "spec_descriptors k (t # ts) =
     (if is_code_token t then spec_descriptor k t # spec_descriptors (Suc k) ts else spec_descriptors k ts)"

text \<open>The HTML of a pass in closed form: a placeholder for every code block, in place.\<close>

fun spec_html :: "renderer_rules \<Rightarrow> nat \<Rightarrow> token list \<Rightarrow> jsstring" where
  "spec_html R k [] = []"
| "spec_html R k (t # ts) =
     (if is_code_token t then placeholder (code_block_id k) @ spec_html R (Suc k) ts
      else other_html R t @ spec_html R k ts)"

text \<open>
  The segment sequence in document order, as the specification describes it: walking the
  tokens top to bottom, the HTML of the tokens between two code blocks is one fragment
  (\<open>pend\<close> collects it), emitted before the next code block, or at the end, unless it is
  blank; every code block is one Code segment with its descriptor.
\<close>

fun spec_segments :: "renderer_rules \<Rightarrow> nat \<Rightarrow> jsstring \<Rightarrow> token list \<Rightarrow> Segment list" where
  "spec_segments R k pend [] = push_html pend []"
| "spec_segments R k pend (t # ts) =
     (if is_code_token t
      then push_html pend [] @ Code (spec_descriptor k t) # spec_segments R (Suc k) [] ts
      else spec_segments R k (pend @ other_html R t) ts)"

text \<open>The Code segments and the HTML segments of a sequence, in order.\<close>

fun code_segments :: "Segment list \<Rightarrow> CodeBlockData list" where
  "code_segments [] = []"
| "code_segments (Html h # ss) = code_segments ss"
| "code_segments (Code cb # ss) = cb # code_segments ss"

fun html_segments :: "Segment list \<Rightarrow> jsstring list" where
  "html_segments [] = []"
| "html_segments (Html h # ss) = h # html_segments ss"
| "html_segments (Code cb # ss) = html_segments ss"

text \<open>The identifiers of the placeholders the scan meets, left to right.\<close>

function placeholder_ids :: "jsstring \<Rightarrow> nat \<Rightarrow> jsstring list" where
  "placeholder_ids h lastIndex =
     (case exec h lastIndex of
        None \<Rightarrow> []
      | Some (idx, cap, n) \<Rightarrow> cap # placeholder_ids h (idx + n))"
  by pat_completeness auto
termination
  apply (relation "measure (\<lambda>(h, lastIndex). length h - lastIndex)")
   apply simp
  apply (auto dest!: exec_bounds)
  done

declare placeholder_ids.simps [simp del]

text \<open>
  What the segmenter relies on in the parser (section 6 of the specification: raw HTML of
  the source is escaped, and the placeholder is told apart by a textual scan): the HTML of
  a token that is not a code block never opens a \<open>div\<close> element. In that HTML every
  \<open><\<close> is followed, in the same piece, by a code unit other than \<open>d\<close>; markdown-it with
  \<open>html: false\<close> writes \<open><\<close> only to open or close one of its own tags, none of which
  starts with \<open>d\<close>, and escapes it everywhere else.
\<close>

fun opens_no_div :: "jsstring \<Rightarrow> bool" where
  "opens_no_div [] = True"
| "opens_no_div [c] = (c \<noteq> 0x003C)"
| "opens_no_div (c # d # cs) = ((c \<noteq> 0x003C \<or> d \<noteq> 0x0064) \<and> opens_no_div (d # cs))"

definition token_opens_no_div :: "renderer_rules \<Rightarrow> token \<Rightarrow> bool" where
  "token_opens_no_div R t = opens_no_div (other_html R t)"

definition output_opens_no_div :: "markdown_it \<Rightarrow> jsstring \<Rightarrow> bool" where
  "output_opens_no_div md src = list_all (token_opens_no_div intercepting_rules) (parse md src)"

text \<open>The decimal value of a digit string (used to tell identifiers apart).\<close>

definition digits_value :: "jsstring \<Rightarrow> nat" where
  "digits_value s = foldl (\<lambda>a c. 10 * a + (unat c - 48)) 0 s"

section \<open>Example inputs\<close>

text \<open>
  The sources used as examples, and the token streams markdown-it parses them to.
  \<^item> \<open>example_src\<close> is the document of the specification: a paragraph \<open>A\<close>, a fence
    without info string around the line \<open>x\<close>, a paragraph \<open>B\<close>.
  \<^item> \<open>blocks_src\<close> is a \<open>js\<close> fence around the line \<open>a\<close> and an empty line, a paragraph
    \<open>t\<close>, and an indented block \<open>b\<close>.
  \<^item> \<open>nbsp_src\<close> is four spaces and a no-break space (U+00A0). \<open>trim\<close> removes all of
    it. To CommonMark a line is blank only when it holds nothing but spaces and tabs
    (markdown-it's \<open>isSpace\<close> accepts U+0020 and U+0009 only), so this line is not blank:
    indented by four columns, it is an indented code block whose content is the no-break
    space and a line feed.
  \<^item> \<open>refdef_src\<close> is a link reference definition alone. It defines a label and is no
    structural element of the document: the parser produces no token for it.
  \<^item> \<open>hello_src\<close> is one paragraph.
  \<^item> \<open>whitespace_src\<close> is the whitespace-only input of the specification: three
    spaces, a line feed and a tab.
\<close>

definition example_src :: jsstring where
  "example_src = str ''A'' @ [0x000A, 0x0060, 0x0060, 0x0060, 0x000A] @ str ''x'' @
     [0x000A, 0x0060, 0x0060, 0x0060, 0x000A] @ str ''B''"

definition blocks_src :: jsstring where
  "blocks_src = [0x0060, 0x0060, 0x0060] @ str ''js'' @ [0x000A] @ str ''a'' @
     [0x000A, 0x000A, 0x0060, 0x0060, 0x0060, 0x000A] @ str ''t'' @ [0x000A, 0x000A] @
     str ''    b'' @ [0x000A]"

definition nbsp_src :: jsstring where
  "nbsp_src = [0x0020, 0x0020, 0x0020, 0x0020, 0x00A0]"

definition refdef_src :: jsstring where
  "refdef_src = str ''[a]: b''"

definition hello_src :: jsstring where
  "hello_src = str ''hello''"

definition whitespace_src :: jsstring where
  "whitespace_src = str ''   '' @ [0x000A, 0x0009]"

definition example_parse :: "jsstring \<Rightarrow> token list" where
  "example_parse s =
     (if s = example_src then
        [Other (\<lambda>r. str ''<p>''), Other (\<lambda>r. str ''A''), Other (\<lambda>r. str ''</p>'' @ [0x000A]),
         Fence [] (str ''x'' @ [0x000A]),
         Other (\<lambda>r. str ''<p>''), Other (\<lambda>r. str ''B''), Other (\<lambda>r. str ''</p>'' @ [0x000A])]
      else if s = blocks_src then
        [Fence (str ''js'') (str ''a'' @ [0x000A, 0x000A]),
         Other (\<lambda>r. str ''<p>''), Other (\<lambda>r. str ''t''), Other (\<lambda>r. str ''</p>'' @ [0x000A]),
         Code_block (str ''b'' @ [0x000A])]
      else if s = nbsp_src then [Code_block [0x00A0, 0x000A]]
      else if s = refdef_src then []
      else if s = hello_src then
        [Other (\<lambda>r. str ''<p>''), Other (\<lambda>r. str ''hello''), Other (\<lambda>r. str ''</p>'' @ [0x000A])]
      else [])"

text \<open>The default code renderers (without the escaping of the content, which the examples
  do not need).\<close>

definition example_md :: markdown_it where
  "example_md =
     \<lparr>parse = example_parse,
      default_fence = (\<lambda>info cont.
        (if info = [] then str ''<pre><code>''
         else str ''<pre><code class='' @ [dquote] @ str ''language-'' @ info @ [dquote] @ str ''>'')
        @ cont @ str ''</code></pre>'' @ [0x000A]),
      default_code_block = (\<lambda>cont. str ''<pre><code>'' @ cont @ str ''</code></pre>'' @ [0x000A])\<rparr>"

definition dangling_html :: jsstring where
  "dangling_html = str ''<p>a</p>'' @ placeholder (str ''zzz'') @ str ''<p>b</p>''"

section \<open>Lemmas\<close>

subsection \<open>The files store\<close>

lemma files_saveToStorage: "files (saveToStorage fs s) = files s"
  by (simp add: saveToStorage_def split: option.splits)

lemma currentFileId_saveToStorage: "currentFileId (saveToStorage fs s) = currentFileId s"
  by (simp add: saveToStorage_def split: option.splits)

lemma files_setCurrentFileId: "files (setCurrentFileId i s) = files s"
  by (simp add: setCurrentFileId_def saveCurrentFileId_def split: option.splits)

lemma currentFileId_setCurrentFileId: "currentFileId (setCurrentFileId i s) = i"
  by (simp add: setCurrentFileId_def saveCurrentFileId_def split: option.splits)

subsection \<open>Placeholders and the pattern\<close>

lemma marker_open_unfold: "marker_open = 0x003C # 0x0064 # drop 2 marker_open"
  by (simp add: marker_open_def str_def)

lemma placeholder_eq: "placeholder i = marker_open @ i @ marker_close"
  by (simp add: placeholder_def marker_open_def marker_close_def)

lemma match_here_Nil: "match_here [] = None"
  by (simp add: match_here_def marker_open_def str_def)

lemma search_Nil: "search i [] = None"
  by (simp add: search.simps [of _ "[]"] match_here_Nil)

lemma opens_no_div_tl: "opens_no_div (c # cs) \<Longrightarrow> opens_no_div cs"
  by (cases cs) auto

lemma opens_no_div_append:
  "opens_no_div a \<Longrightarrow> opens_no_div b \<Longrightarrow> opens_no_div (a @ b)"
proof (induction a rule: opens_no_div.induct)
  case 1
  then show ?case by simp
next
  case (2 c)
  then show ?case by (cases b) auto
next
  case (3 c d cs)
  then show ?case by simp
qed

lemma match_here_opens_no_div:
  assumes "opens_no_div (c # cs)"
  shows "match_here ((c # cs) @ rest) = None"
proof -
  have "\<not> prefix marker_open ((c # cs) @ rest)"
  proof
    assume p: "prefix marker_open ((c # cs) @ rest)"
    then obtain t where t: "(c # cs) @ rest = marker_open @ t"
      by (auto simp: prefix_def)
    then have "(c # cs) @ rest = 0x003C # 0x0064 # (drop 2 marker_open @ t)"
      by (subst (asm) marker_open_unfold) simp
    then have c: "c = 0x003C" and r: "cs @ rest = 0x0064 # (drop 2 marker_open @ t)"
      by simp_all
    from assms c obtain d cs' where cs: "cs = d # cs'" and "d \<noteq> 0x0064"
      by (cases cs) auto
    with r show False by simp
  qed
  then show ?thesis by (simp add: match_here_def)
qed

lemma search_opens_no_div:
  "opens_no_div a \<Longrightarrow> search i (a @ rest) = search (i + length a) rest"
proof (induction a arbitrary: i)
  case Nil
  then show ?case by simp
next
  case (Cons c cs)
  have "match_here ((c # cs) @ rest) = None"
    using Cons.prems by (rule match_here_opens_no_div)
  then have "search i ((c # cs) @ rest) = search (Suc i) (cs @ rest)"
    by (simp add: search.simps [of i "c # (cs @ rest)"])
  also have "\<dots> = search (Suc i + length cs) rest"
    by (rule Cons.IH) (rule opens_no_div_tl [OF Cons.prems])
  finally show ?case by simp
qed

lemma search_placeholder:
  "cap \<noteq> [] \<Longrightarrow> dquote \<notin> set cap \<Longrightarrow>
   search i (placeholder cap @ rest) = Some (i, cap, length (placeholder cap))"
proof -
  assume a: "cap \<noteq> []" "dquote \<notin> set cap"
  have "match_here (placeholder cap @ rest) = Some (cap, length (placeholder cap))"
    using a by (subst match_here_iff) (auto simp: placeholder_eq)
  then show ?thesis
    by (simp add: search.simps [of i "placeholder cap @ rest"])
qed

lemma unat_digit_unit: "d < 10 \<Longrightarrow> unat (digit_unit d) = 48 + d"
  unfolding digit_unit_def by (rule of_nat_inverse [OF refl]) simp

lemma digit_unit_neq_dquote: "d < 10 \<Longrightarrow> digit_unit d \<noteq> dquote"
proof
  assume "d < 10" and "digit_unit d = dquote"
  then have "unat (digit_unit d) = unat dquote" by simp
  with \<open>d < 10\<close> show False by (simp add: unat_digit_unit dquote_def)
qed

lemma number_to_string_nonempty: "number_to_string n \<noteq> []"
  by (subst number_to_string.simps) simp

lemma dquote_notin_number_to_string: "dquote \<notin> set (number_to_string n)"
proof (induction n rule: number_to_string.induct)
  case (1 n)
  show ?case
  proof (cases "n < 10")
    case True
    then show ?thesis
      using digit_unit_neq_dquote [of n] by (subst number_to_string.simps) auto
  next
    case False
    have "n mod 10 < 10" by simp
    then have "digit_unit (n mod 10) \<noteq> dquote" by (rule digit_unit_neq_dquote)
    with False 1 show ?thesis
      by (subst number_to_string.simps) auto
  qed
qed

lemma digits_value_number_to_string: "digits_value (number_to_string n) = n"
proof (induction n rule: number_to_string.induct)
  case (1 n)
  show ?case
  proof (cases "n < 10")
    case True
    then show ?thesis
      by (subst number_to_string.simps) (simp add: digits_value_def unat_digit_unit)
  next
    case False
    with 1 have ih: "digits_value (number_to_string (n div 10)) = n div 10" by simp
    have "digits_value (number_to_string n) =
          10 * digits_value (number_to_string (n div 10)) + (unat (digit_unit (n mod 10)) - 48)"
      using False by (subst number_to_string.simps) (simp add: digits_value_def)
    also have "\<dots> = 10 * (n div 10) + n mod 10"
      by (simp add: ih unat_digit_unit)
    finally show ?thesis by simp
  qed
qed

lemma number_to_string_inj: "number_to_string a = number_to_string b \<Longrightarrow> a = b"
  by (metis digits_value_number_to_string)

lemma code_block_id_inj: "code_block_id a = code_block_id b \<longleftrightarrow> a = b"
  by (auto simp: code_block_id_def dest: number_to_string_inj)

lemma code_block_id_nonempty: "code_block_id k \<noteq> []"
  by (simp add: code_block_id_def number_to_string_nonempty)

lemma dquote_notin_code_block_id: "dquote \<notin> set (code_block_id k)"
  by (simp add: code_block_id_def dquote_notin_number_to_string) (simp add: str_def dquote_def)

subsection \<open>The parse pass in closed form\<close>

lemma render_token_override:
  assumes "fence_rule R = Override" "code_block_rule R = Override"
  shows "render_token md R t p =
    (if is_code_token t
     then (placeholder (code_block_id (blockIndex p)),
           \<lparr>codeBlocks_var = codeBlocks_var p @ [spec_descriptor (blockIndex p) t],
            blockIndex = Suc (blockIndex p)\<rparr>)
     else (other_html R t, p))"
  using assms
  by (cases t) (simp_all add: fence_override_def code_block_override_def spec_descriptor_def Let_def)

lemma render_loop_override:
  assumes "fence_rule R = Override" "code_block_rule R = Override"
  shows "render_loop md R ts result p =
    (result @ spec_html R (blockIndex p) ts,
     \<lparr>codeBlocks_var = codeBlocks_var p @ spec_descriptors (blockIndex p) ts,
      blockIndex = blockIndex p + length (code_tokens ts)\<rparr>)"
proof (induction ts arbitrary: result p)
  case Nil
  then show ?case by (simp add: code_tokens_def)
next
  case (Cons t ts)
  show ?case
    by (simp add: render_token_override [OF assms] Cons.IH code_tokens_def)
qed

lemma codeBlockMap_snoc: "codeBlockMap (cbs @ [cb]) = (codeBlockMap cbs)(cb_id cb \<mapsto> cb)"
  by (simp add: codeBlockMap_def)

lemma codeBlockMap_distinct:
  "distinct (map cb_id cbs) \<Longrightarrow> cb \<in> set cbs \<Longrightarrow> codeBlockMap cbs (cb_id cb) = Some cb"
proof (induction cbs rule: rev_induct)
  case Nil
  then show ?case by simp
next
  case (snoc x xs)
  show ?case
  proof (cases "cb = x")
    case True
    then show ?thesis by (simp add: codeBlockMap_snoc)
  next
    case False
    with snoc.prems have mem: "cb \<in> set xs" by simp
    then have "cb_id cb \<in> cb_id ` set xs" by (rule imageI)
    with snoc.prems have "cb_id cb \<noteq> cb_id x" by auto
    moreover have "codeBlockMap xs (cb_id cb) = Some cb"
      using snoc.prems mem by (intro snoc.IH) simp_all
    ultimately show ?thesis by (simp add: codeBlockMap_snoc)
  qed
qed

lemma cb_id_descriptors:
  "map cb_id (spec_descriptors k ts) = map code_block_id [k ..< k + length (code_tokens ts)]"
proof (induction ts arbitrary: k)
  case Nil
  then show ?case by (simp add: code_tokens_def)
next
  case (Cons t ts)
  show ?case
  proof (cases "is_code_token t")
    case True
    have "[k ..< k + Suc (length (code_tokens ts))] = k # [Suc k ..< Suc k + length (code_tokens ts)]"
      by (simp add: upt_rec)
    with True show ?thesis
      using Cons.IH [of "Suc k"] by (simp add: code_tokens_def spec_descriptor_def)
  next
    case False
    then show ?thesis using Cons.IH [of k] by (simp add: code_tokens_def)
  qed
qed

lemma distinct_cb_id_descriptors: "distinct (map cb_id (spec_descriptors k ts))"
  by (simp add: cb_id_descriptors distinct_map inj_on_def code_block_id_inj)

subsection \<open>The scan of the HTML of a pass\<close>

lemma push_html_acc: "push_html h acc = acc @ push_html h []"
  by (simp add: push_html_def)

lemma push_html_Nil: "push_html [] acc = acc"
  by (simp add: push_html_def trim_def)

lemma segments_loop_document:
  assumes "list_all (token_opens_no_div R) ts" "opens_no_div pend"
    and "\<forall>cb\<in>set (spec_descriptors k ts). m (cb_id cb) = Some cb"
  shows "segments_loop (pre @ pend @ spec_html R k ts) m (length pre) acc
         = acc @ spec_segments R k pend ts"
  using assms
proof (induction ts arbitrary: pre pend k acc)
  case Nil
  have "exec (pre @ pend) (length pre) = None"
    using search_opens_no_div [OF Nil.prems(2), of "length pre" "[]"]
    by (simp add: exec_def search_Nil)
  then have "segments_loop (pre @ pend) m (length pre) acc
             = (if pend = [] then acc else push_html pend acc)"
    by (subst segments_loop.simps) (simp add: slice_from_def)
  also have "\<dots> = acc @ push_html pend []"
    using push_html_acc [of pend acc] by (simp add: push_html_Nil)
  finally show ?case by simp
next
  case (Cons t ts)
  show ?case
  proof (cases "is_code_token t")
    case False
    have pf: "opens_no_div (pend @ other_html R t)"
      using Cons.prems by (intro opens_no_div_append) (simp_all add: token_opens_no_div_def)
    have "segments_loop (pre @ (pend @ other_html R t) @ spec_html R k ts) m (length pre) acc
          = acc @ spec_segments R k (pend @ other_html R t) ts"
      using Cons.prems False by (intro Cons.IH pf) simp_all
    with False show ?thesis by simp
  next
    case True
    let ?P = "placeholder (code_block_id k)"
    let ?X = "spec_html R (Suc k) ts"
    let ?h = "pre @ pend @ ?P @ ?X"
    let ?idx = "length pre + length pend"
    have ex: "exec ?h (length pre) = Some (?idx, code_block_id k, length ?P)"
      using search_opens_no_div [OF Cons.prems(2), of "length pre" "?P @ ?X"]
        search_placeholder [OF code_block_id_nonempty dquote_notin_code_block_id, of ?idx k ?X]
      by (simp add: exec_def)
    have m: "m (code_block_id k) = Some (spec_descriptor k t)"
      using Cons.prems(3) True by (simp add: spec_descriptor_def)
    have r1: "(if length pre < ?idx then push_html (slice ?h (length pre) ?idx) acc else acc)
              = acc @ push_html pend []"
      using push_html_acc [of pend acc] by (simp add: slice_def push_html_Nil)
    have step: "segments_loop ?h m (length pre) acc
          = segments_loop ?h m (?idx + length ?P) ((acc @ push_html pend []) @ [Code (spec_descriptor k t)])"
      by (subst segments_loop.simps) (simp only: ex option.case prod.case Let_def r1 m)
    have ih: "segments_loop ((pre @ pend @ ?P) @ [] @ ?X) m (length (pre @ pend @ ?P))
                ((acc @ push_html pend []) @ [Code (spec_descriptor k t)])
          = ((acc @ push_html pend []) @ [Code (spec_descriptor k t)]) @ spec_segments R (Suc k) [] ts"
      using Cons.prems True by (intro Cons.IH) simp_all
    from step ih True show ?thesis by (simp add: add.assoc)
  qed
qed

lemma processedContent_blank:
  "trim src = [] \<Longrightarrow> processedContent md src r = (\<lparr>html = [], codeBlocks = []\<rparr>, r)"
  by (simp add: processedContent_def)

lemma processedContent_nonblank:
  "trim src \<noteq> [] \<Longrightarrow> processedContent md src r =
     (\<lparr>html = spec_html intercepting_rules 0 (parse md src),
       codeBlocks = spec_descriptors 0 (parse md src)\<rparr>, original_rules)"
proof -
  assume nb: "trim src \<noteq> []"
  have r1: "r\<lparr>fence_rule := Override, code_block_rule := Override, image_rule := Override,
             link_open_rule := Override, link_close_rule := Override\<rparr> = intercepting_rules"
    by (simp add: intercepting_rules_def)
  have r2: "intercepting_rules\<lparr>fence_rule := Original, code_block_rule := Original,
             image_rule := Original, link_open_rule := Original, link_close_rule := Original\<rparr>
            = original_rules"
    by (simp add: intercepting_rules_def original_rules_def)
  have ov: "fence_rule intercepting_rules = Override" "code_block_rule intercepting_rules = Override"
    by (simp_all add: intercepting_rules_def)
  show ?thesis
    using nb by (simp add: processedContent_def r1 r2 render_def render_loop_override [OF ov])
qed

lemma segments_loop_Nil: "segments_loop [] m 0 [] = []"
  by (subst segments_loop.simps) (simp add: exec_def search_Nil)

lemma segments_nonblank:
  assumes "trim src \<noteq> []" "output_opens_no_div md src"
  shows "segments md src r = spec_segments intercepting_rules 0 [] (parse md src)"
proof -
  let ?ts = "parse md src"
  let ?h = "spec_html intercepting_rules 0 ?ts"
  let ?m = "codeBlockMap (spec_descriptors 0 ?ts)"
  have m: "\<forall>cb\<in>set (spec_descriptors 0 ?ts). ?m (cb_id cb) = Some cb"
    using codeBlockMap_distinct [OF distinct_cb_id_descriptors] by blast
  have "segments_loop ([] @ [] @ ?h) ?m (length ([] :: jsstring)) []
        = [] @ spec_segments intercepting_rules 0 [] ?ts"
    using assms(2) m by (intro segments_loop_document) (simp_all add: output_opens_no_div_def)
  then have loop: "segments_loop ?h ?m 0 [] = spec_segments intercepting_rules 0 [] ?ts"
    by simp
  show ?thesis
  proof (cases "?h = []")
    case True
    with loop show ?thesis
      using assms(1)
      by (simp add: segments_def segments_of_def processedContent_nonblank segments_loop_Nil)
  next
    case False
    with loop show ?thesis
      using assms(1) by (simp add: segments_def segments_of_def processedContent_nonblank)
  qed
qed

subsection \<open>Segments of a sequence\<close>

lemma code_segments_append: "code_segments (a @ b) = code_segments a @ code_segments b"
  by (induction a rule: code_segments.induct) simp_all

lemma html_segments_append: "html_segments (a @ b) = html_segments a @ html_segments b"
  by (induction a rule: html_segments.induct) simp_all

lemma code_segments_push_html: "code_segments (push_html h acc) = code_segments acc"
  by (simp add: push_html_def code_segments_append)

lemma code_segments_document: "code_segments (spec_segments R k pend ts) = spec_descriptors k ts"
  by (induction ts arbitrary: k pend) (simp_all add: code_segments_push_html code_segments_append)

lemma count_list_Code: "count_list ss (Code cb) = count_list (code_segments ss) cb"
  by (induction ss rule: code_segments.induct) simp_all

lemma count_list_distinct: "distinct xs \<Longrightarrow> x \<in> set xs \<Longrightarrow> count_list xs x = 1"
  by (induction xs) (auto simp: count_list_0_iff)

lemma distinct_descriptors: "distinct (spec_descriptors k ts)"
  using distinct_cb_id_descriptors [of k ts] by (simp add: distinct_map)

lemma Html_mem_iff: "Html x \<in> set ss \<longleftrightarrow> x \<in> set (html_segments ss)"
  by (induction ss rule: html_segments.induct) auto

lemma Code_mem_iff: "Code cb \<in> set ss \<longleftrightarrow> cb \<in> set (code_segments ss)"
  by (induction ss rule: code_segments.induct) auto

subsection \<open>The scan of any HTML string\<close>

lemma segments_loop_None:
  "exec h i = None \<Longrightarrow>
   segments_loop h m i acc = (if i < length h then push_html (slice_from h i) acc else acc)"
  by (subst segments_loop.simps) simp

lemma segments_loop_Some:
  "exec h i = Some (idx, cap, n) \<Longrightarrow>
   segments_loop h m i acc =
     segments_loop h m (idx + n)
       (case m cap of
          Some codeBlock \<Rightarrow> (if i < idx then push_html (slice h i idx) acc else acc) @ [Code codeBlock]
        | None \<Rightarrow> (if i < idx then push_html (slice h i idx) acc else acc))"
  by (subst segments_loop.simps) (simp add: Let_def)

lemma html_segments_push_html:
  "html_segments (push_html x acc) = html_segments acc @ (if trim x \<noteq> [] then [x] else [])"
  by (simp add: push_html_def html_segments_append)

lemma match_here_extend: "match_here a = Some r \<Longrightarrow> match_here (a @ b) = Some r"
  by (cases r) (auto simp: match_here_iff)

lemma search_None_iff: "search i s = None \<longleftrightarrow> (\<forall>k\<le>length s. match_here (drop k s) = None)"
proof (induction s arbitrary: i)
  case Nil
  then show ?case by (simp add: search_Nil match_here_Nil)
next
  case (Cons c cs)
  have "search i (c # cs) = None \<longleftrightarrow> match_here (c # cs) = None \<and> search (Suc i) cs = None"
    by (subst search.simps) (auto split: option.splits)
  also have "\<dots> \<longleftrightarrow> match_here (c # cs) = None \<and> (\<forall>k\<le>length cs. match_here (drop k cs) = None)"
    by (simp add: Cons.IH)
  also have "\<dots> \<longleftrightarrow> (\<forall>k\<le>length (c # cs). match_here (drop k (c # cs)) = None)"
  proof
    assume a: "match_here (c # cs) = None \<and> (\<forall>k\<le>length cs. match_here (drop k cs) = None)"
    show "\<forall>k\<le>length (c # cs). match_here (drop k (c # cs)) = None"
    proof (intro allI impI)
      fix k assume "k \<le> length (c # cs)"
      with a show "match_here (drop k (c # cs)) = None" by (cases k) simp_all
    qed
  next
    assume a: "\<forall>k\<le>length (c # cs). match_here (drop k (c # cs)) = None"
    have "match_here (c # cs) = None" using a [rule_format, of 0] by simp
    moreover have "\<forall>k\<le>length cs. match_here (drop k cs) = None"
    proof (intro allI impI)
      fix k assume "k \<le> length cs"
      then show "match_here (drop k cs) = None" using a [rule_format, of "Suc k"] by simp
    qed
    ultimately show "match_here (c # cs) = None \<and> (\<forall>k\<le>length cs. match_here (drop k cs) = None)"
      by simp
  qed
  finally show ?case .
qed

lemma search_Some_least:
  "search i s = Some (idx, cap, n) \<Longrightarrow> k < idx - i \<Longrightarrow> match_here (drop k s) = None"
proof (induction s arbitrary: i k)
  case Nil
  then show ?case by (simp add: search_Nil)
next
  case (Cons c cs)
  show ?case
  proof (cases "match_here (c # cs)")
    case (Some a)
    with Cons.prems(1) have "idx = i"
      by (subst (asm) search.simps) (auto split: prod.splits)
    with Cons.prems(2) show ?thesis by simp
  next
    case None
    with Cons.prems(1) have s: "search (Suc i) cs = Some (idx, cap, n)"
      by (subst (asm) search.simps) simp
    show ?thesis
    proof (cases k)
      case 0
      with None show ?thesis by simp
    next
      case (Suc k')
      with Cons.prems(2) have "k' < idx - Suc i" by simp
      from Cons.IH [OF s this] Suc show ?thesis by simp
    qed
  qed
qed

lemma exec_None_slice: "exec h i = None \<Longrightarrow> i \<le> length h \<Longrightarrow> exec (slice_from h i) 0 = None"
  by (simp add: exec_def slice_from_def search_None_iff)

lemma exec_Some_slice:
  assumes "exec h i = Some (idx, cap, n)"
  shows "exec (slice h i idx) 0 = None"
proof -
  from assms have le: "i \<le> length h" and s: "search i (drop i h) = Some (idx, cap, n)"
    by (auto simp: exec_def split: if_splits)
  let ?s = "drop i h"
  let ?x = "take (idx - i) ?s"
  have "match_here (drop k ?x) = None" if "k \<le> length ?x" for k
  proof (cases "k < idx - i")
    case True
    define y where "y = drop k ?x"
    define z where "z = drop (idx - i - k) (drop k ?s)"
    have eq: "drop k ?s = y @ z"
      unfolding y_def z_def by (simp only: drop_take append_take_drop_id)
    have none: "match_here (drop k ?s) = None"
      by (rule search_Some_least [OF s True])
    have "match_here y = None"
    proof (rule ccontr)
      assume "match_here y \<noteq> None"
      then obtain r where "match_here y = Some r" by auto
      then have "match_here (y @ z) = Some r" by (rule match_here_extend)
      with none eq show False by simp
    qed
    then show ?thesis by (simp only: y_def)
  next
    case False
    with that have "drop k ?x = []" by simp
    then show ?thesis by (simp add: match_here_Nil)
  qed
  then show ?thesis
    by (simp add: exec_def slice_def search_None_iff)
qed

lemma segments_loop_html:
  "x \<in> set (html_segments (segments_loop h m i acc)) \<Longrightarrow> i \<le> length h \<Longrightarrow>
   x \<in> set (html_segments acc) \<or> (trim x \<noteq> [] \<and> exec x 0 = None)"
proof (induction "length h - i" arbitrary: i acc rule: less_induct)
  case less
  show ?case
  proof (cases "exec h i")
    case None
    with less.prems show ?thesis
      using exec_None_slice [OF None]
      by (auto simp: segments_loop_None html_segments_push_html split: if_splits)
  next
    case (Some a)
    obtain idx cap n where a: "a = (idx, cap, n)" by (cases a) auto
    note ex = Some [unfolded a]
    from exec_bounds [OF ex] have b: "i \<le> idx" "0 < n" "idx + n \<le> length h" by simp_all
    let ?r1 = "if i < idx then push_html (slice h i idx) acc else acc"
    let ?r2 = "case m cap of Some codeBlock \<Rightarrow> ?r1 @ [Code codeBlock] | None \<Rightarrow> ?r1"
    have "x \<in> set (html_segments (segments_loop h m (idx + n) ?r2))"
      using less.prems(1) by (simp add: segments_loop_Some [OF ex])
    then have "x \<in> set (html_segments ?r2) \<or> (trim x \<noteq> [] \<and> exec x 0 = None)"
      using b less.prems(2) by (intro less.hyps) simp_all
    moreover have "html_segments ?r2 = html_segments ?r1"
      by (simp add: html_segments_append split: option.splits)
    ultimately show ?thesis
      using exec_Some_slice [OF ex]
      by (auto simp: html_segments_push_html split: if_splits)
  qed
qed

lemma segments_loop_code:
  "i \<le> length h \<Longrightarrow>
   code_segments (segments_loop h m i acc) = code_segments acc @ List.map_filter m (placeholder_ids h i)"
proof (induction "length h - i" arbitrary: i acc rule: less_induct)
  case less
  show ?case
  proof (cases "exec h i")
    case None
    then show ?thesis
      by (subst placeholder_ids.simps)
        (simp add: segments_loop_None code_segments_push_html)
  next
    case (Some a)
    obtain idx cap n where a: "a = (idx, cap, n)" by (cases a) auto
    note ex = Some [unfolded a]
    from exec_bounds [OF ex] have b: "i \<le> idx" "0 < n" "idx + n \<le> length h" by simp_all
    let ?r1 = "if i < idx then push_html (slice h i idx) acc else acc"
    let ?r2 = "case m cap of Some codeBlock \<Rightarrow> ?r1 @ [Code codeBlock] | None \<Rightarrow> ?r1"
    have "code_segments (segments_loop h m (idx + n) ?r2)
          = code_segments ?r2 @ List.map_filter m (placeholder_ids h (idx + n))"
      using b less.prems by (intro less.hyps) simp_all
    moreover have "code_segments ?r2 = code_segments acc @ List.map_filter m [cap]"
      by (simp add: code_segments_append code_segments_push_html split: option.splits)
    moreover have "placeholder_ids h i = cap # placeholder_ids h (idx + n)"
      by (subst placeholder_ids.simps) (simp add: ex)
    ultimately show ?thesis
      by (simp add: segments_loop_Some [OF ex] List.map_filter_simps split: option.splits)
  qed
qed

lemma segments_of_html:
  "x \<in> set (html_segments (segments_of pc)) \<Longrightarrow> trim x \<noteq> [] \<and> exec x 0 = None"
  using segments_loop_html [of x "html pc" "codeBlockMap (codeBlocks pc)" 0 "[]"]
  by (simp add: segments_of_def split: if_splits)

lemma segments_blank: "trim src = [] \<Longrightarrow> segments md src r = []"
  by (simp add: segments_def processedContent_blank segments_of_def)

lemma length_descriptors: "length (spec_descriptors k ts) = length (code_tokens ts)"
  by (induction ts arbitrary: k) (simp_all add: code_tokens_def)

lemma code_descriptors:
  "map code (spec_descriptors k ts) = map (\<lambda>t. replace_trailing_newline (token_content t)) (code_tokens ts)"
  by (induction ts arbitrary: k) (simp_all add: code_tokens_def spec_descriptor_def)

lemma language_descriptors:
  "map language (spec_descriptors k ts) = map spec_language (code_tokens ts)"
  by (induction ts arbitrary: k) (simp_all add: code_tokens_def spec_descriptor_def)

lemma no_code_tokens:
  "code_tokens ts = [] \<Longrightarrow>
   spec_segments R k pend ts = push_html (pend @ spec_html R k ts) []"
proof (induction ts arbitrary: pend)
  case Nil
  then show ?case by simp
next
  case (Cons t ts)
  then have "\<not> is_code_token t" and "code_tokens ts = []"
    by (auto simp: code_tokens_def split: if_splits)
  with Cons.IH [of "pend @ other_html R t"] show ?case by simp
qed

lemma exec_None_no_placeholder:
  assumes "exec x 0 = None" "cap \<noteq> []" "dquote \<notin> set cap"
  shows "x \<noteq> a @ placeholder cap @ b"
proof
  assume x: "x = a @ placeholder cap @ b"
  from assms(1) have all: "\<And>k. k \<le> length x \<Longrightarrow> match_here (drop k x) = None"
    by (simp add: exec_def search_None_iff)
  have "length a \<le> length x" by (simp add: x)
  then have "match_here (drop (length a) x) = None" by (rule all)
  moreover have "drop (length a) x = placeholder cap @ b" by (simp add: x)
  moreover have "match_here (placeholder cap @ b) = Some (cap, length (placeholder cap))"
    using assms(2,3) by (subst match_here_iff) (auto simp: placeholder_eq)
  ultimately show False by simp
qed

section \<open>The claims\<close>

subsection \<open>The segmenter\<close>

text \<open>
  C1. When the HTML of the tokens that are not code blocks never opens a \<open>div\<close> element
  (as the parser guarantees), the segment sequence is the document-order sequence of the
  token stream: the HTML between code blocks and the code blocks, top to bottom. The Code
  segments are, in order, the descriptors the pass recorded, every recorded descriptor
  is the Code segment of exactly one position of the sequence, and no HTML segment of
  the sequence is blank after trimming.
\<close>

theorem segments_document_order:
  assumes "output_opens_no_div md src"
  shows "segments md src r =
           (if trim src = [] then []
            else spec_segments intercepting_rules 0 [] (parse md src)) \<and>
         code_segments (segments md src r) = codeBlocks (fst (processedContent md src r)) \<and>
         (\<forall>cb\<in>set (codeBlocks (fst (processedContent md src r))).
            count_list (segments md src r) (Code cb) = 1) \<and>
         (\<forall>x\<in>set (html_segments (segments md src r)). trim x \<noteq> [])"
proof (cases "trim src = []")
  case True
  then show ?thesis
    by (simp add: segments_blank processedContent_blank)
next
  case False
  have seg: "segments md src r = spec_segments intercepting_rules 0 [] (parse md src)"
    using False assms by (rule segments_nonblank)
  have "count_list (segments md src r) (Code cb) = 1"
    if "cb \<in> set (spec_descriptors 0 (parse md src))" for cb
    using that
    by (simp add: seg count_list_Code code_segments_document count_list_distinct
        distinct_descriptors)
  moreover have "trim x \<noteq> []" if "x \<in> set (html_segments (segments md src r))" for x
    using that segments_of_html [of x "fst (processedContent md src r)"]
    by (simp add: segments_def)
  ultimately show ?thesis
    using False by (simp add: seg processedContent_nonblank code_segments_document)
qed

text \<open>The document of the specification: an HTML segment for \<open>A\<close>, the Code segment for
  \<open>x\<close>, an HTML segment for \<open>B\<close>.\<close>

theorem segments_document_order_witness:
  "output_opens_no_div example_md example_src \<and>
   segments example_md example_src original_rules =
     [Html (str ''<p>A</p>'' @ [0x000A]),
      Code \<lparr>cb_id = str ''code-block-0'', code = str ''x'', language = str ''plaintext''\<rparr>,
      Html (str ''<p>B</p>'' @ [0x000A])] \<and>
   codeBlocks (fst (processedContent example_md example_src original_rules)) =
     [\<lparr>cb_id = str ''code-block-0'', code = str ''x'', language = str ''plaintext''\<rparr>]"
proof -
  have c: "output_opens_no_div example_md example_src"
    by code_simp
  have n: "trim example_src \<noteq> []"
    by code_simp
  have d: "spec_segments intercepting_rules 0 [] (parse example_md example_src) =
     [Html (str ''<p>A</p>'' @ [0x000A]),
      Code \<lparr>cb_id = str ''code-block-0'', code = str ''x'', language = str ''plaintext''\<rparr>,
      Html (str ''<p>B</p>'' @ [0x000A])]"
    by code_simp
  have p: "codeBlocks (fst (processedContent example_md example_src original_rules)) =
     [\<lparr>cb_id = str ''code-block-0'', code = str ''x'', language = str ''plaintext''\<rparr>]"
    by code_simp
  from segments_document_order [OF c, of original_rules] n d p c show ?thesis
    by simp
qed

text \<open>
  C2. When the fence and the indented-code slots hold their original handlers before an
  invocation, they hold them after it, on every source: a blank source returns before
  the slots are written, and any other source ends with all five slots set back to the
  captured originals. A fenced or indented code token rendered under the rules the
  invocation leaves gets the parser's default rendering and records nothing.
\<close>

theorem handlers_restored:
  assumes "fence_rule r = Original" "code_block_rule r = Original"
  shows "fence_rule (snd (processedContent md src r)) = Original \<and>
         code_block_rule (snd (processedContent md src r)) = Original \<and>
         render_token md (snd (processedContent md src r)) (Fence info cont) p
           = (default_fence md info cont, p) \<and>
         render_token md (snd (processedContent md src r)) (Code_block cont) p
           = (default_code_block md cont, p) \<and>
         snd (processedContent md src r) = (if trim src = [] then r else original_rules)"
  using assms
  by (cases "trim src = []")
    (simp_all add: processedContent_blank processedContent_nonblank original_rules_def)

theorem handlers_restored_witness:
  "fence_rule original_rules = Original \<and> code_block_rule original_rules = Original \<and>
   snd (processedContent example_md [] original_rules) = original_rules \<and>
   snd (processedContent example_md whitespace_src original_rules) = original_rules \<and>
   snd (processedContent example_md example_src original_rules) = original_rules \<and>
   render_token example_md (snd (processedContent example_md example_src original_rules))
     (Code_block (str ''x'')) \<lparr>codeBlocks_var = [], blockIndex = 0\<rparr>
     = (str ''<pre><code>x</code></pre>'' @ [0x000A], \<lparr>codeBlocks_var = [], blockIndex = 0\<rparr>)"
proof -
  have f: "fence_rule original_rules = Original" and c: "code_block_rule original_rules = Original"
    by (simp_all add: original_rules_def)
  have t1: "trim [] = []" and t2: "trim whitespace_src = []" and t3: "trim example_src \<noteq> []"
    by code_simp+
  have d: "default_code_block example_md (str ''x'') = str ''<pre><code>x</code></pre>'' @ [0x000A]"
    by code_simp
  from handlers_restored [OF f c, of example_md "[]"]
    handlers_restored [OF f c, of example_md whitespace_src]
    handlers_restored [OF f c, of example_md example_src _ "str ''x''"
      "\<lparr>codeBlocks_var = [], blockIndex = 0\<rparr>"]
    f c t1 t2 t3 d
  show ?thesis by simp
qed

text \<open>
  C3, as amended. For a source that is not blank (and a parser whose other HTML never opens
  a \<open>div\<close>), the sequence has as many Code segments as the token stream has fenced and
  indented code blocks, and the code texts are, in order, the contents of the blocks with
  \<open>replace_trailing_newline\<close> applied: a content that ends with a line feed loses that one
  line feed and nothing else, any other content is unchanged.
\<close>

theorem code_segments_count_and_text:
  assumes "trim src \<noteq> []" "output_opens_no_div md src"
  shows "length (code_segments (segments md src r)) = length (code_tokens (parse md src)) \<and>
         map code (code_segments (segments md src r))
           = map (\<lambda>t. replace_trailing_newline (token_content t)) (code_tokens (parse md src)) \<and>
         replace_trailing_newline (c @ [0x000A]) = c \<and>
         (if c = [] then replace_trailing_newline c = c
          else if last c = 0x000A then replace_trailing_newline c = butlast c
          else replace_trailing_newline c = c)"
  using assms
  by (simp add: segments_nonblank code_segments_document length_descriptors code_descriptors
      replace_trailing_newline_def)

theorem code_segments_count_and_text_witness:
  "trim blocks_src \<noteq> [] \<and> output_opens_no_div example_md blocks_src \<and>
   length (code_tokens (parse example_md blocks_src)) = 2 \<and>
   length (code_segments (segments example_md blocks_src original_rules)) = 2 \<and>
   map code (code_segments (segments example_md blocks_src original_rules))
     = [str ''a'' @ [0x000A], str ''b'']"
proof -
  have n: "trim blocks_src \<noteq> []" by code_simp
  have c: "output_opens_no_div example_md blocks_src" by code_simp
  have l: "length (code_tokens (parse example_md blocks_src)) = 2" by code_simp
  have m: "map (\<lambda>t. replace_trailing_newline (token_content t))
             (code_tokens (parse example_md blocks_src))
           = [str ''a'' @ [0x000A], str ''b'']" by code_simp
  from code_segments_count_and_text [OF n c, of original_rules] n c l m show ?thesis
    by simp
qed

text \<open>
  C3 as stated fails on a source that \<open>trim\<close> empties but that holds a code block: the
  source of four spaces and a no-break space has one indented code block, and the
  segmenter returns no segment for it.
\<close>

theorem blank_source_drops_code_block:
  "trim nbsp_src = [] \<and>
   output_opens_no_div example_md nbsp_src \<and>
   length (code_tokens (parse example_md nbsp_src)) = 1 \<and>
   length (code_segments (segments example_md nbsp_src original_rules)) = 0"
  by code_simp

text \<open>
  C4. A source that is empty, or that \<open>trim\<close> empties, yields no segment, no descriptor
  and the empty HTML string.
\<close>

theorem blank_input_empty:
  assumes "trim src = []"
  shows "segments md src r = [] \<and>
         codeBlocks (fst (processedContent md src r)) = [] \<and>
         html (fst (processedContent md src r)) = []"
  using assms by (simp add: segments_blank processedContent_blank)

theorem blank_input_empty_witness:
  "trim [] = [] \<and> segments example_md [] original_rules = [] \<and>
   trim whitespace_src = [] \<and>
   segments example_md whitespace_src original_rules = [] \<and>
   codeBlocks (fst (processedContent example_md whitespace_src original_rules)) = []"
proof -
  have t1: "trim [] = []" and t2: "trim whitespace_src = []"
    by code_simp+
  from blank_input_empty [OF t1, of example_md original_rules]
    blank_input_empty [OF t2, of example_md original_rules] t1 t2
  show ?thesis by simp
qed

text \<open>
  C5, as amended. For a source that is not blank and has no fenced or indented code block
  (and a parser whose other HTML never opens a \<open>div\<close>), the sequence has no Code segment
  and at most one HTML segment: the whole rendered HTML when that is not blank after
  trimming, and nothing when it is.
\<close>

theorem no_code_blocks_one_html_segment:
  assumes "trim src \<noteq> []" "output_opens_no_div md src" "code_tokens (parse md src) = []"
  shows "segments md src r =
           (if trim (html (fst (processedContent md src r))) \<noteq> []
            then [Html (html (fst (processedContent md src r)))] else []) \<and>
         code_segments (segments md src r) = []"
proof -
  have "segments md src r = push_html (html (fst (processedContent md src r))) []"
    using assms by (simp add: segments_nonblank no_code_tokens processedContent_nonblank)
  then show ?thesis by (simp add: push_html_def)
qed

theorem no_code_blocks_one_html_segment_witness:
  "trim hello_src \<noteq> [] \<and> output_opens_no_div example_md hello_src \<and>
   code_tokens (parse example_md hello_src) = [] \<and>
   segments example_md hello_src original_rules = [Html (str ''<p>hello</p>'' @ [0x000A])]"
proof -
  have n: "trim hello_src \<noteq> []" by code_simp
  have c: "output_opens_no_div example_md hello_src" by code_simp
  have z: "code_tokens (parse example_md hello_src) = []" by code_simp
  have h: "html (fst (processedContent example_md hello_src original_rules))
           = str ''<p>hello</p>'' @ [0x000A]" by code_simp
  have t: "trim (str ''<p>hello</p>'' @ [0x000A]) \<noteq> []" by code_simp
  from no_code_blocks_one_html_segment [OF n c z, of original_rules] n c z h t show ?thesis
    by simp
qed

text \<open>
  C5 as stated fails on a source that is not blank but renders to the empty string: a
  link reference definition alone produces no token, so no HTML, and the sequence is
  empty instead of holding one HTML segment.
\<close>

theorem no_code_blocks_counterexample:
  "trim refdef_src \<noteq> [] \<and> output_opens_no_div example_md refdef_src \<and>
   code_tokens (parse example_md refdef_src) = [] \<and>
   html (fst (processedContent example_md refdef_src original_rules)) = [] \<and>
   segments example_md refdef_src original_rules = []"
  by code_simp

text \<open>
  C6. The fence handler records, after the descriptors already recorded, one descriptor
  whose language tag is the info string itself when that is not empty and \<open>plaintext\<close>
  when it is empty; the handler of indented blocks records one whose tag is \<open>plaintext\<close>.
  So the language tags a pass records are, in order, those the specification gives the
  code blocks of the token stream.
\<close>

theorem descriptor_language:
  "map language (codeBlocks_var (snd (fence_override info cont p)))
     = map language (codeBlocks_var p) @ [if info = [] then str ''plaintext'' else info] \<and>
   map language (codeBlocks_var (snd (code_block_override cont p)))
     = map language (codeBlocks_var p) @ [str ''plaintext''] \<and>
   map language (codeBlocks (fst (processedContent md src r)))
     = (if trim src = [] then [] else map spec_language (code_tokens (parse md src)))"
  by (simp add: fence_override_def code_block_override_def Let_def processedContent_blank
      processedContent_nonblank language_descriptors)

theorem descriptor_language_witness:
  "map language (codeBlocks_var (snd (fence_override (str ''js'') (str ''x'')
      \<lparr>codeBlocks_var = [], blockIndex = 0\<rparr>))) = [str ''js''] \<and>
   map language (codeBlocks_var (snd (fence_override [] (str ''x'')
      \<lparr>codeBlocks_var = [], blockIndex = 0\<rparr>))) = [str ''plaintext''] \<and>
   map language (codeBlocks (fst (processedContent example_md blocks_src original_rules)))
     = [str ''js'', str ''plaintext'']"
proof -
  have n: "trim blocks_src \<noteq> []" by code_simp
  have m: "map spec_language (code_tokens (parse example_md blocks_src))
           = [str ''js'', str ''plaintext'']"
    by code_simp
  have j: "str ''js'' \<noteq> []" by code_simp
  from descriptor_language [where info = "str ''js''" and cont = "str ''x''"
      and p = "\<lparr>codeBlocks_var = [], blockIndex = 0\<rparr>"
      and md = example_md and src = blocks_src and r = original_rules]
    descriptor_language [where info = "[]" and cont = "str ''x''"
      and p = "\<lparr>codeBlocks_var = [], blockIndex = 0\<rparr>"
      and md = example_md and src = blocks_src and r = original_rules]
    n m j
  show ?thesis by simp
qed

text \<open>
  C7. For every HTML string and every list of descriptors the scan returns a sequence
  (the loop is a total function). Its Code segments are, in order, the descriptors found
  for the identifiers of the placeholders it meets; an identifier without a descriptor
  adds none: at such a placeholder the loop pushes at most the HTML before it and goes on
  behind it. No HTML segment of the result holds a placeholder: the pattern matches
  nowhere in it.
\<close>

theorem dangling_placeholder_skipped:
  "code_segments (segments_of pc)
     = List.map_filter (codeBlockMap (codeBlocks pc)) (placeholder_ids (html pc) 0) \<and>
   (\<forall>x\<in>set (html_segments (segments_of pc)).
      exec x 0 = None \<and>
      (\<forall>a cap b. cap \<noteq> [] \<and> dquote \<notin> set cap \<longrightarrow> x \<noteq> a @ placeholder cap @ b)) \<and>
   (exec h i = Some (idx, cap', n) \<and> m cap' = None \<longrightarrow>
      segments_loop h m i acc =
        segments_loop h m (idx + n) (if i < idx then push_html (slice h i idx) acc else acc))"
proof -
  have "code_segments (segments_of pc)
     = List.map_filter (codeBlockMap (codeBlocks pc)) (placeholder_ids (html pc) 0)"
  proof (cases "html pc = []")
    case True
    have "placeholder_ids [] 0 = []"
      by (subst placeholder_ids.simps) (simp add: exec_def search_Nil)
    with True show ?thesis by (simp add: segments_of_def)
  next
    case False
    then show ?thesis
      using segments_loop_code [of 0 "html pc" "codeBlockMap (codeBlocks pc)" "[]"]
      by (simp add: segments_of_def)
  qed
  moreover have "exec x 0 = None \<and>
      (\<forall>a cap b. cap \<noteq> [] \<and> dquote \<notin> set cap \<longrightarrow> x \<noteq> a @ placeholder cap @ b)"
    if "x \<in> set (html_segments (segments_of pc))" for x
    using segments_of_html [OF that] exec_None_no_placeholder [of x] by blast
  moreover have "segments_loop h m i acc =
        segments_loop h m (idx + n) (if i < idx then push_html (slice h i idx) acc else acc)"
    if "exec h i = Some (idx, cap', n)" "m cap' = None"
    using that by (simp add: segments_loop_Some)
  ultimately show ?thesis by blast
qed

theorem dangling_placeholder_skipped_witness:
  "placeholder_ids dangling_html 0 = [str ''zzz''] \<and>
   exec dangling_html 0 = Some (8, str ''zzz'', 36) \<and>
   codeBlockMap [] (str ''zzz'') = None \<and>
   segments_loop dangling_html (codeBlockMap []) 0 []
     = segments_loop dangling_html (codeBlockMap []) 44 [Html (str ''<p>a</p>'')] \<and>
   segments_of \<lparr>html = dangling_html, codeBlocks = []\<rparr>
     = [Html (str ''<p>a</p>''), Html (str ''<p>b</p>'')]"
proof -
  have a: "placeholder_ids dangling_html 0 = [str ''zzz'']" by code_simp
  have e: "exec dangling_html 0 = Some (8, str ''zzz'', 36)" by code_simp
  have b: "codeBlockMap [] (str ''zzz'') = None" by code_simp
  have sl: "slice dangling_html 0 8 = str ''<p>a</p>''" by code_simp
  have t: "trim (str ''<p>a</p>'') \<noteq> []" by code_simp
  have c: "segments_of \<lparr>html = dangling_html, codeBlocks = []\<rparr>
     = [Html (str ''<p>a</p>''), Html (str ''<p>b</p>'')]" by code_simp
  from dangling_placeholder_skipped [where h = dangling_html and i = 0 and idx = 8
      and cap' = "str ''zzz''" and n = 36 and m = "codeBlockMap []" and acc = "[]"] e b
  have "segments_loop dangling_html (codeBlockMap []) 0 []
      = segments_loop dangling_html (codeBlockMap []) (8 + 36)
          (if (0::nat) < 8 then push_html (slice dangling_html 0 8) [] else [])"
    by blast
  then have d: "segments_loop dangling_html (codeBlockMap []) 0 []
     = segments_loop dangling_html (codeBlockMap []) 44 [Html (str ''<p>a</p>'')]"
    using sl t by (simp add: push_html_def)
  from a e b c d show ?thesis by simp
qed

text \<open>
  C8. What an invocation returns does not depend on the renderer rules it finds, so a
  second invocation on the same source, started from the rules the first one left,
  returns the same segment sequence. In one pass the descriptors are those of the code
  blocks in document order, their identifiers are \<open>code-block-0\<close>, \<open>code-block-1\<close>, ...
  counted from zero in that order, and no two of them are equal.
\<close>

theorem segmenter_deterministic:
  "fst (processedContent md src r) = fst (processedContent md src r') \<and>
   segments md src r = segments md src r' \<and>
   segments md src (snd (processedContent md src r)) = segments md src r \<and>
   codeBlocks (fst (processedContent md src r))
     = (if trim src = [] then [] else spec_descriptors 0 (parse md src)) \<and>
   map cb_id (codeBlocks (fst (processedContent md src r)))
     = map code_block_id [0 ..< length (codeBlocks (fst (processedContent md src r)))] \<and>
   distinct (map cb_id (codeBlocks (fst (processedContent md src r)))) \<and>
   (code_block_id a = code_block_id b \<longleftrightarrow> a = b)"
proof -
  have e: "fst (processedContent md src x) = fst (processedContent md src y)" for x y
    by (cases "trim src = []") (simp_all add: processedContent_blank processedContent_nonblank)
  have "map cb_id (codeBlocks (fst (processedContent md src r)))
     = map code_block_id [0 ..< length (codeBlocks (fst (processedContent md src r)))]"
    by (cases "trim src = []")
      (simp_all add: processedContent_blank processedContent_nonblank cb_id_descriptors
        length_descriptors)
  moreover have "distinct (map cb_id (codeBlocks (fst (processedContent md src r))))"
    by (cases "trim src = []")
      (simp_all add: processedContent_blank processedContent_nonblank distinct_cb_id_descriptors)
  moreover have "codeBlocks (fst (processedContent md src r))
     = (if trim src = [] then [] else spec_descriptors 0 (parse md src))"
    by (simp add: processedContent_blank processedContent_nonblank)
  ultimately show ?thesis
    using e [of r r'] e [of "snd (processedContent md src r)" r]
    by (simp add: segments_def code_block_id_inj)
qed

theorem segmenter_deterministic_witness:
  "map cb_id (codeBlocks (fst (processedContent example_md blocks_src original_rules)))
     = [str ''code-block-0'', str ''code-block-1''] \<and>
   segments example_md blocks_src (snd (processedContent example_md blocks_src original_rules))
     = segments example_md blocks_src original_rules \<and>
   segments example_md blocks_src original_rules =
     [Code \<lparr>cb_id = str ''code-block-0'', code = str ''a'' @ [0x000A], language = str ''js''\<rparr>,
      Html (str ''<p>t</p>'' @ [0x000A]),
      Code \<lparr>cb_id = str ''code-block-1'', code = str ''b'', language = str ''plaintext''\<rparr>]"
proof -
  have l: "length (codeBlocks (fst (processedContent example_md blocks_src original_rules))) = 2"
    by code_simp
  have u: "[0 ..< 2] = [0, Suc 0]" by code_simp
  have i: "map code_block_id [0, Suc 0] = [str ''code-block-0'', str ''code-block-1'']"
    by code_simp
  have s: "segments example_md blocks_src original_rules =
     [Code \<lparr>cb_id = str ''code-block-0'', code = str ''a'' @ [0x000A], language = str ''js''\<rparr>,
      Html (str ''<p>t</p>'' @ [0x000A]),
      Code \<lparr>cb_id = str ''code-block-1'', code = str ''b'', language = str ''plaintext''\<rparr>]"
    by code_simp
  note t = segmenter_deterministic [of example_md blocks_src original_rules original_rules 0 0]
  from t have a: "segments example_md blocks_src
        (snd (processedContent example_md blocks_src original_rules))
      = segments example_md blocks_src original_rules"
    by blast
  from t have b: "map cb_id (codeBlocks (fst (processedContent example_md blocks_src original_rules)))
      = map code_block_id
          [0 ..< length (codeBlocks (fst (processedContent example_md blocks_src original_rules)))]"
    by blast
  from a b l u i s show ?thesis by simp
qed

subsection \<open>The files store\<close>

text \<open>
  C9. A document created with the empty name is named \<open>Untitled\<close>, and every newly
  created document has its creation timestamp equal to its last-modified timestamp (both
  are the one reading of the clock); the document is appended to the list of files.
\<close>

theorem createFile_untitled_and_timestamps:
  "name (fst (createFile [] cont now new_id s)) = str ''Untitled'' \<and>
   createdAt (fst (createFile nm cont now new_id s)) = updatedAt (fst (createFile nm cont now new_id s)) \<and>
   createdAt (fst (createFile nm cont now new_id s)) = now \<and>
   files (snd (createFile nm cont now new_id s)) = files s @ [fst (createFile nm cont now new_id s)]"
  by (simp add: createFile_def Let_def files_saveToStorage)

theorem createFile_untitled_and_timestamps_witness:
  "name (fst (createFile [] None 1700000000000 (str ''1700000000000-abc1234'')
        \<lparr>files = [], currentFileId = None, window = None\<rparr>)) = str ''Untitled'' \<and>
   createdAt (fst (createFile (str ''notes'') (Some (str ''# hi'')) 1700000000000 (str ''1700000000000-abc1234'')
        \<lparr>files = [], currentFileId = None, window = None\<rparr>)) = 1700000000000 \<and>
   updatedAt (fst (createFile (str ''notes'') (Some (str ''# hi'')) 1700000000000 (str ''1700000000000-abc1234'')
        \<lparr>files = [], currentFileId = None, window = None\<rparr>)) = 1700000000000"
  using createFile_untitled_and_timestamps
    [of None 1700000000000 "str ''1700000000000-abc1234''"
        "\<lparr>files = [], currentFileId = None, window = None\<rparr>"]
    createFile_untitled_and_timestamps
    [of "Some (str ''# hi'')" 1700000000000 "str ''1700000000000-abc1234''"
        "\<lparr>files = [], currentFileId = None, window = None\<rparr>" "str ''notes''"]
  by simp

text \<open>
  C10. \<open>deleteFile\<close> keeps, in their order and with every field as it was, exactly the
  documents whose id differs from the given one, and removes the others; the current-file
  selection becomes null when it pointed to the deleted id and is left as it was
  otherwise.
\<close>

theorem deleteFile_frame:
  "files (deleteFile i s) = filter (\<lambda>f. file_id f \<noteq> i) (files s) \<and>
   set (files (deleteFile i s)) = {f \<in> set (files s). file_id f \<noteq> i} \<and>
   currentFileId (deleteFile i s) = (if currentFileId s = Some i then None else currentFileId s)"
  by (simp add: deleteFile_def Let_def files_saveToStorage currentFileId_saveToStorage
      files_setCurrentFileId currentFileId_setCurrentFileId)

theorem deleteFile_frame_witness:
  "files (deleteFile (str ''a'')
      \<lparr>files = [\<lparr>file_id = str ''a'', name = str ''one'', content = [], createdAt = 1, updatedAt = 2\<rparr>,
                \<lparr>file_id = str ''b'', name = str ''two'', content = str ''x'', createdAt = 3, updatedAt = 4\<rparr>],
       currentFileId = Some (str ''a''), window = None\<rparr>)
     = [\<lparr>file_id = str ''b'', name = str ''two'', content = str ''x'', createdAt = 3, updatedAt = 4\<rparr>] \<and>
   currentFileId (deleteFile (str ''a'')
      \<lparr>files = [\<lparr>file_id = str ''a'', name = str ''one'', content = [], createdAt = 1, updatedAt = 2\<rparr>,
                \<lparr>file_id = str ''b'', name = str ''two'', content = str ''x'', createdAt = 3, updatedAt = 4\<rparr>],
       currentFileId = Some (str ''a''), window = None\<rparr>) = None \<and>
   currentFileId (deleteFile (str ''a'')
      \<lparr>files = [\<lparr>file_id = str ''a'', name = str ''one'', content = [], createdAt = 1, updatedAt = 2\<rparr>,
                \<lparr>file_id = str ''b'', name = str ''two'', content = str ''x'', createdAt = 3, updatedAt = 4\<rparr>],
       currentFileId = Some (str ''b''), window = None\<rparr>) = Some (str ''b'')"
  using deleteFile_frame
    [of "str ''a''"
        "\<lparr>files = [\<lparr>file_id = str ''a'', name = str ''one'', content = [], createdAt = 1, updatedAt = 2\<rparr>,
                  \<lparr>file_id = str ''b'', name = str ''two'', content = str ''x'', createdAt = 3, updatedAt = 4\<rparr>],
         currentFileId = Some (str ''a''), window = None\<rparr>"]
    deleteFile_frame
    [of "str ''a''"
        "\<lparr>files = [\<lparr>file_id = str ''a'', name = str ''one'', content = [], createdAt = 1, updatedAt = 2\<rparr>,
                  \<lparr>file_id = str ''b'', name = str ''two'', content = str ''x'', createdAt = 3, updatedAt = 4\<rparr>],
         currentFileId = Some (str ''b''), window = None\<rparr>"]
  by (simp add: str_def)

end
